theory Spec2Isabelle
  imports Complex_Main
begin

section \<open>The grid generator over the real numbers\<close>

text \<open>
  This theory embeds \<^verbatim>\<open>grid-generator/grid-generator.py\<close>. The program computes with
  IEEE double-precision floats; the embedding computes with the real numbers, so that
  \<open>sin\<close>, \<open>cos\<close>, \<open>arcsin\<close> and \<open>arctan\<close> are the mathematical functions and
  \<open>radians\<close> and \<open>degrees\<close> are exact inverses of each other. Every statement below is
  a statement about this real-number reading of the code; rounding, signed zeros and
  NaN are outside it.

  Errors are values: \<open>math.asin\<close> raises \<open>ValueError\<close> outside \<open>[-1, 1]\<close>, list
  indexing raises \<open>IndexError\<close> and a call past the interpreter's recursion limit
  raises \<open>RecursionError\<close>, so the functions that can raise return \<open>error + 'a\<close>. The
  two line walkers recurse until a comparison succeeds. They are modelled twice: as
  partial functions into \<open>option\<close>, with \<open>None\<close> for a walk that never reaches its
  stop test, and with the number of interpreter frames still free as a parameter,
  where such a walk ends in \<open>RecursionError\<close>.
\<close>

subsection \<open>Library functions of the \<^verbatim>\<open>math\<close> module\<close>

datatype error = ValueError | IndexError | RecursionError

type_synonym point = "real \<times> real"
  \<comment> \<open>the two-element list \<^verbatim>\<open>[lon, lat]\<close>\<close>

definition radians :: "real \<Rightarrow> real" where
  "radians x = x * (pi / 180)"

definition degrees :: "real \<Rightarrow> real" where
  "degrees x = x * (180 / pi)"

definition asin :: "real \<Rightarrow> error + real" where
  "asin x = (if - 1 \<le> x \<and> x \<le> 1 then Inr (arcsin x) else Inl ValueError)"

text \<open>
  \<open>math.atan2 y x\<close> is the angle of the point \<open>(x, y)\<close> in \<open>(-pi, pi]\<close>, and \<open>0\<close> at the
  origin. The real numbers have one zero: where the program computes \<open>y = -0.0\<close> with
  \<open>x < 0\<close> it returns \<open>- pi\<close>, the same direction as the \<open>pi\<close> given here.
\<close>

definition atan2 :: "real \<Rightarrow> real \<Rightarrow> real" where
  "atan2 y x =
     (if 0 < x then arctan (y / x)
      else if x < 0 then (if 0 \<le> y then arctan (y / x) + pi else arctan (y / x) - pi)
      else if 0 < y then pi / 2
      else if y < 0 then - (pi / 2)
      else 0)"

subsection \<open>Constants\<close>

definition RADIUS_OF_EARTH :: real where
  "RADIUS_OF_EARTH = 6371"

definition NORTH :: real where
  "NORTH = radians 0"

definition EAST :: real where
  "EAST = radians 90"

definition SOUTH :: real where
  "SOUTH = radians 180"

definition WEST :: real where
  "WEST = radians 270"

subsection \<open>The geodesic stepper\<close>

definition angular_distance :: "real \<Rightarrow> real" where
  "angular_distance distance = distance / RADIUS_OF_EARTH"

definition get_next_lat :: "real \<Rightarrow> real \<Rightarrow> real \<Rightarrow> error + real" where
  "get_next_lat lat distance bearing =
     (let ad = angular_distance distance
      in asin ((sin lat * cos ad) + (cos lat * sin ad * cos bearing)))"

definition get_next_lon :: "real \<Rightarrow> real \<Rightarrow> real \<Rightarrow> real \<Rightarrow> real \<Rightarrow> real" where
  "get_next_lon lat1 lat2 lon distance bearing =
     (let ad = angular_distance distance;
          left = sin bearing * sin ad * cos lat1;
          right = cos ad - sin lat1 * sin lat2
      in lon + atan2 left right)"

definition get_next_lat_lon :: "real \<Rightarrow> real \<Rightarrow> real \<Rightarrow> real \<Rightarrow> error + point" where
  "get_next_lat_lon lat lon distance bearing =
     (let lat_rads = radians lat;
          lon_rads = radians lon
      in case get_next_lat lat_rads distance bearing of
           Inl e \<Rightarrow> Inl e
         | Inr lat2 \<Rightarrow>
             (let lon2 = get_next_lon lat_rads lat2 lon_rads distance bearing
              in Inr (degrees lon2, degrees lat2)))"

subsection \<open>The line walkers\<close>

text \<open>
  \<^verbatim>\<open>points.append\<close> mutates the list the caller passed; the model passes the extended
  list on. A walk that raises returns \<open>Some (Inl e)\<close>, a walk that returns normally
  \<open>Some (Inr points)\<close>, and a walk that recurses forever is \<open>None\<close>.
\<close>

partial_function (option) get_points_south ::
  "real \<Rightarrow> real \<Rightarrow> real \<Rightarrow> real \<Rightarrow> point list \<Rightarrow> (error + point list) option" where
  "get_points_south lat_start lon_start lat_end step_size points =
     (let points1 = points @ [(lon_start, lat_start)]
      in if lat_start < lat_end then Some (Inr points1)
         else (case get_next_lat_lon lat_start lon_start step_size SOUTH of
                 Inl e \<Rightarrow> Some (Inl e)
               | Inr (lon, lat) \<Rightarrow> get_points_south lat lon lat_end step_size points1))"

partial_function (option) get_points_east ::
  "real \<Rightarrow> real \<Rightarrow> real \<Rightarrow> real \<Rightarrow> point list \<Rightarrow> (error + point list) option" where
  "get_points_east lat_start lon_start lon_end step_size points =
     (let points1 = points @ [(lon_start, lat_start)]
      in if lon_start > lon_end then Some (Inr points1)
         else (case get_next_lat_lon lat_start lon_start step_size EAST of
                 Inl e \<Rightarrow> Some (Inl e)
               | Inr (lon, lat) \<Rightarrow> get_points_east lat lon lon_end step_size points1))"

subsection \<open>The line walkers under the recursion limit\<close>

text \<open>
  Every call of a function of the program takes one interpreter frame, and a call made
  when no frame is free raises \<open>RecursionError\<close>. \<open>frames\<close> is the number of frames
  still free when the walker is called. The walker's own call takes one of them; the
  calls of the stepper nest three deep below it (\<^verbatim>\<open>get_next_lat_lon\<close>, then
  \<^verbatim>\<open>get_next_lat\<close> or \<^verbatim>\<open>get_next_lon\<close>, then \<^verbatim>\<open>angular_distance\<close>), and the recursive call
  is made with the frames the walker's own call left. A walk of \<open>m\<close> points is \<open>m\<close>
  nested calls.
\<close>

fun get_points_south_frames ::
  "nat \<Rightarrow> real \<Rightarrow> real \<Rightarrow> real \<Rightarrow> real \<Rightarrow> point list \<Rightarrow> error + point list" where
  "get_points_south_frames 0 lat_start lon_start lat_end step_size points = Inl RecursionError"
| "get_points_south_frames (Suc frames) lat_start lon_start lat_end step_size points =
     (let points1 = points @ [(lon_start, lat_start)]
      in if lat_start < lat_end then Inr points1
         else if frames < 3 then Inl RecursionError
         else (case get_next_lat_lon lat_start lon_start step_size SOUTH of
                 Inl e \<Rightarrow> Inl e
               | Inr (lon, lat) \<Rightarrow>
                   get_points_south_frames frames lat lon lat_end step_size points1))"

fun get_points_east_frames ::
  "nat \<Rightarrow> real \<Rightarrow> real \<Rightarrow> real \<Rightarrow> real \<Rightarrow> point list \<Rightarrow> error + point list" where
  "get_points_east_frames 0 lat_start lon_start lon_end step_size points = Inl RecursionError"
| "get_points_east_frames (Suc frames) lat_start lon_start lon_end step_size points =
     (let points1 = points @ [(lon_start, lat_start)]
      in if lon_start > lon_end then Inr points1
         else if frames < 3 then Inl RecursionError
         else (case get_next_lat_lon lat_start lon_start step_size EAST of
                 Inl e \<Rightarrow> Inl e
               | Inr (lon, lat) \<Rightarrow>
                   get_points_east_frames frames lat lon lon_end step_size points1))"

subsection \<open>The grid builders\<close>

text \<open>
  Each builder walks one axis and then, in a \<^verbatim>\<open>for\<close> loop over the points of that walk,
  appends the perpendicular walk from each point. The loop is a recursion over the
  list of anchor points with the matrix built so far as accumulator.
\<close>

fun south_then_east_loop ::
  "real \<Rightarrow> real \<Rightarrow> point list \<Rightarrow> point list list \<Rightarrow> (error + point list list) option" where
  "south_then_east_loop lon_end step_size [] points = Some (Inr points)"
| "south_then_east_loop lon_end step_size ((lon, lat) # rest) points =
     (case get_points_east lat lon lon_end step_size [] of
        None \<Rightarrow> None
      | Some (Inl e) \<Rightarrow> Some (Inl e)
      | Some (Inr row) \<Rightarrow> south_then_east_loop lon_end step_size rest (points @ [row]))"

definition get_points_south_then_east ::
  "real \<Rightarrow> real \<Rightarrow> real \<Rightarrow> real \<Rightarrow> real \<Rightarrow> (error + point list list) option" where
  "get_points_south_then_east lat_start lon_start lat_end lon_end step_size =
     (case get_points_south lat_start lon_start lat_end step_size [] of
        None \<Rightarrow> None
      | Some (Inl e) \<Rightarrow> Some (Inl e)
      | Some (Inr points_south) \<Rightarrow> south_then_east_loop lon_end step_size points_south [])"

fun east_then_south_loop ::
  "real \<Rightarrow> real \<Rightarrow> point list \<Rightarrow> point list list \<Rightarrow> (error + point list list) option" where
  "east_then_south_loop lat_end step_size [] points = Some (Inr points)"
| "east_then_south_loop lat_end step_size ((lon, lat) # rest) points =
     (case get_points_south lat lon lat_end step_size [] of
        None \<Rightarrow> None
      | Some (Inl e) \<Rightarrow> Some (Inl e)
      | Some (Inr col) \<Rightarrow> east_then_south_loop lat_end step_size rest (points @ [col]))"

definition get_points_east_then_south ::
  "real \<Rightarrow> real \<Rightarrow> real \<Rightarrow> real \<Rightarrow> real \<Rightarrow> (error + point list list) option" where
  "get_points_east_then_south lat_start lon_start lat_end lon_end step_size =
     (case get_points_east lat_start lon_start lon_end step_size [] of
        None \<Rightarrow> None
      | Some (Inl e) \<Rightarrow> Some (Inl e)
      | Some (Inr points_east) \<Rightarrow> east_then_south_loop lat_end step_size points_east [])"

subsection \<open>The polygon assembler\<close>

text \<open>
  \<open>getitem xs i\<close> is \<^verbatim>\<open>xs[i]\<close> for an index that is not negative, as every index of
  \<^verbatim>\<open>get_polygons\<close> is: it raises \<open>IndexError\<close> past the end. The four corners are read
  in the order of the list display. \<^verbatim>\<open>range(n - 1)\<close> is empty for \<open>n = 0\<close>, as
  \<open>[0..<n - 1]\<close> is on the natural numbers.
\<close>

definition getitem :: "'a list \<Rightarrow> nat \<Rightarrow> error + 'a" where
  "getitem xs i = (if i < length xs then Inr (xs ! i) else Inl IndexError)"

definition getitem2 :: "'a list list \<Rightarrow> nat \<Rightarrow> nat \<Rightarrow> error + 'a" where
  "getitem2 points row col =
     (case getitem points row of Inl e \<Rightarrow> Inl e | Inr r \<Rightarrow> getitem r col)"

definition get_square_at_rc :: "nat \<Rightarrow> nat \<Rightarrow> 'a list list \<Rightarrow> error + 'a list" where
  "get_square_at_rc row col points =
     (case getitem2 points row col of Inl e \<Rightarrow> Inl e | Inr p0 \<Rightarrow>
      case getitem2 points (row + 1) col of Inl e \<Rightarrow> Inl e | Inr p1 \<Rightarrow>
      case getitem2 points (row + 1) (col + 1) of Inl e \<Rightarrow> Inl e | Inr p2 \<Rightarrow>
      case getitem2 points row (col + 1) of Inl e \<Rightarrow> Inl e | Inr p3 \<Rightarrow>
      Inr [p0, p1, p2, p3])"

fun get_polygons_cols ::
  "nat \<Rightarrow> 'a list list \<Rightarrow> nat list \<Rightarrow> 'a list list \<Rightarrow> error + 'a list list" where
  "get_polygons_cols r points [] polys = Inr polys"
| "get_polygons_cols r points (c # cs) polys =
     (case get_square_at_rc r c points of
        Inl e \<Rightarrow> Inl e
      | Inr square \<Rightarrow> get_polygons_cols r points cs (polys @ [square]))"

fun get_polygons_rows ::
  "'a list list \<Rightarrow> nat list \<Rightarrow> 'a list list \<Rightarrow> error + 'a list list" where
  "get_polygons_rows points [] polys = Inr polys"
| "get_polygons_rows points (r # rs) polys =
     (case getitem points r of
        Inl e \<Rightarrow> Inl e
      | Inr row \<Rightarrow>
          (case get_polygons_cols r points [0..<length row - 1] polys of
             Inl e \<Rightarrow> Inl e
           | Inr polys' \<Rightarrow> get_polygons_rows points rs polys'))"

definition get_polygons :: "'a list list \<Rightarrow> error + 'a list list" where
  "get_polygons points = get_polygons_rows points [0..<length points - 1] []"

subsection \<open>The GeoJSON encoders\<close>






subsection \<open>The quad of the specification\<close>

text \<open>
  The cell the specification names for row \<open>r\<close> and column \<open>c\<close>: the corners
  \<open>(r, c)\<close>, \<open>(r + 1, c)\<close>, \<open>(r + 1, c + 1)\<close>, \<open>(r, c + 1)\<close>. The assembler is compared
  with it below.
\<close>

definition spec_quad :: "'a list list \<Rightarrow> nat \<Rightarrow> nat \<Rightarrow> 'a list" where
  "spec_quad matrix r c =
     [matrix ! r ! c, matrix ! (r + 1) ! c, matrix ! (r + 1) ! (c + 1), matrix ! r ! (c + 1)]"

section \<open>Properties of the stepper\<close>

lemma degrees_radians: "degrees (radians x) = x"
  by (simp add: degrees_def radians_def)


lemma lagrange_identity:
  fixes x1 x2 y1 y2 :: real
  shows "(x1 * y1 + x2 * y2)\<^sup>2 + (x1 * y2 - x2 * y1)\<^sup>2 = (x1\<^sup>2 + x2\<^sup>2) * (y1\<^sup>2 + y2\<^sup>2)"
  by (simp add: power2_eq_square algebra_simps)

lemma asin_arg_sq:
  fixes a d c :: real
  assumes "\<bar>c\<bar> \<le> 1"
  shows "(sin a * cos d + cos a * sin d * c)\<^sup>2 \<le> 1"
proof -
  define u where "u = sin d * c"
  have "(sin a * cos d + cos a * u)\<^sup>2 + (sin a * u - cos a * cos d)\<^sup>2
      = ((sin a)\<^sup>2 + (cos a)\<^sup>2) * ((cos d)\<^sup>2 + u\<^sup>2)"
    by (rule lagrange_identity)
  also have "\<dots> = (cos d)\<^sup>2 + u\<^sup>2" by simp
  finally have le: "(sin a * cos d + cos a * u)\<^sup>2 \<le> (cos d)\<^sup>2 + u\<^sup>2"
    using zero_le_power2 [of "sin a * u - cos a * cos d"] by linarith
  have "c\<^sup>2 \<le> 1"
    using assms by (simp add: abs_square_le_1)
  then have "(sin d)\<^sup>2 * c\<^sup>2 \<le> (sin d)\<^sup>2 * 1"
    by (intro mult_left_mono) simp_all
  then have "u\<^sup>2 \<le> (sin d)\<^sup>2"
    by (simp add: u_def power_mult_distrib)
  moreover have "(sin d)\<^sup>2 + (cos d)\<^sup>2 = 1" by simp
  ultimately have "(sin a * cos d + cos a * u)\<^sup>2 \<le> 1"
    using le by linarith
  then show ?thesis by (simp add: u_def mult.assoc)
qed

lemma asin_arg_range:
  fixes a d b :: real
  shows "- 1 \<le> sin a * cos d + cos a * sin d * cos b"
    and "sin a * cos d + cos a * sin d * cos b \<le> 1"
proof -
  have "\<bar>sin a * cos d + cos a * sin d * cos b\<bar> \<le> 1"
    using asin_arg_sq [of "cos b" a d] by (simp add: abs_square_le_1)
  then show "- 1 \<le> sin a * cos d + cos a * sin d * cos b"
    and "sin a * cos d + cos a * sin d * cos b \<le> 1"
    by linarith+
qed

lemma get_next_lat_eq:
  "get_next_lat lat distance bearing =
     Inr (arcsin (sin lat * cos (distance / 6371) + cos lat * sin (distance / 6371) * cos bearing))"
  using asin_arg_range [of lat "distance / 6371" bearing]
  by (simp add: get_next_lat_def angular_distance_def RADIUS_OF_EARTH_def asin_def Let_def)

lemma get_next_lat_lon_unfold:
  "get_next_lat_lon lat lon d b =
     Inr (degrees (radians lon +
            atan2 (sin b * sin (d / 6371) * cos (radians lat))
              (cos (d / 6371) - sin (radians lat) *
                 sin (arcsin (sin (radians lat) * cos (d / 6371) +
                        cos (radians lat) * sin (d / 6371) * cos b)))),
          degrees (arcsin (sin (radians lat) * cos (d / 6371) +
                     cos (radians lat) * sin (d / 6371) * cos b)))"
  by (simp add: get_next_lat_lon_def get_next_lat_eq get_next_lon_def
      angular_distance_def RADIUS_OF_EARTH_def Let_def)

text \<open>
  This is the stepper in exact arithmetic: it never raises, because the exact argument
  of \<open>asin\<close> lies in \<open>[-1, 1]\<close>. The program rounds every product and the sum: where the
  exact argument is within rounding of \<open>1\<close> or \<open>- 1\<close>, a point one step from a pole,
  the rounded sum can be \<open>1.0000000000000002\<close> in magnitude, and \<^verbatim>\<open>math.asin\<close> raises
  there. \<^verbatim>\<open>get_next_lat\<close> does not clamp the sum.
\<close>

lemma radians_range:
  assumes "- 90 \<le> lat" and "lat \<le> 90"
  shows "- (pi / 2) \<le> radians lat" and "radians lat \<le> pi / 2"
proof -
  have "- 90 * (pi / 180) \<le> lat * (pi / 180)"
    using assms(1) by (intro mult_right_mono) simp_all
  then show "- (pi / 2) \<le> radians lat"
    by (simp add: radians_def)
  have "lat * (pi / 180) \<le> 90 * (pi / 180)"
    using assms(2) by (intro mult_right_mono) simp_all
  then show "radians lat \<le> pi / 2"
    by (simp add: radians_def)
qed

lemma atan2_zero_nonneg: "0 \<le> x \<Longrightarrow> atan2 0 x = 0"
  by (simp add: atan2_def)

text \<open>
  C8. For every point with latitude in \<open>[-90, 90]\<close> degrees and every bearing, a step of
  distance \<open>0\<close> returns the input point.
\<close>

theorem get_next_lat_lon_zero_distance:
  assumes "- 90 \<le> lat" and "lat \<le> 90"
  shows "get_next_lat_lon lat lon 0 b = Inr (lon, lat)"
proof -
  have "arcsin (sin (radians lat)) = radians lat"
    using radians_range [OF assms] by (simp add: arcsin_sin)
  moreover have "1 - sin (radians lat) * sin (radians lat) = (cos (radians lat))\<^sup>2"
  proof -
    have "cos (radians lat) * cos (radians lat) + sin (radians lat) * sin (radians lat) = 1"
      by (rule sin_cos_squared_add3)
    then show ?thesis unfolding power2_eq_square by linarith
  qed
  ultimately show ?thesis
    by (simp add: get_next_lat_lon_unfold atan2_zero_nonneg degrees_radians)
qed

theorem get_next_lat_lon_zero_distance_witness:
  "- 90 \<le> (21::real) \<and> (21::real) \<le> 90 \<and>
   get_next_lat_lon 21 (- 158) 0 EAST = Inr (- 158, 21)"
  using get_next_lat_lon_zero_distance [of 21 "- 158" EAST] by simp

subsection \<open>Steps due South and due North\<close>

lemma cos_split_diff:
  fixes x a :: real
  shows "cos a - sin x * sin (x - a) = cos x * cos (x - a)"
proof -
  have "cos a = cos (x - (x - a))" by simp
  also have "\<dots> = cos x * cos (x - a) + sin x * sin (x - a)" by (rule cos_diff)
  finally show ?thesis by simp
qed

lemma cos_split_add:
  fixes x a :: real
  shows "cos a - sin x * sin (x + a) = cos x * cos (x + a)"
proof -
  have "cos a = cos ((x + a) - x)" by simp
  also have "\<dots> = cos (x + a) * cos x + sin (x + a) * sin x" by (rule cos_diff)
  finally show ?thesis by (simp add: mult.commute)
qed

lemma radians_diff_degrees: "radians (lat - degrees a) = radians lat - a"
  by (simp add: radians_def degrees_def algebra_simps)

lemma degrees_diff: "degrees (radians lat - a) = lat - degrees a"
  by (simp add: radians_def degrees_def algebra_simps)

lemma degrees_add: "degrees (radians lat + a) = lat + degrees a"
  by (simp add: radians_def degrees_def algebra_simps)

lemma step_south:
  assumes "- 90 \<le> lat" and "lat \<le> 90"
    and "- 90 \<le> lat - degrees (d / 6371)" and "lat - degrees (d / 6371) \<le> 90"
  shows "get_next_lat_lon lat lon d SOUTH = Inr (lon, lat - degrees (d / 6371))"
proof -
  define x where "x = radians lat"
  define a where "a = d / 6371"
  have x: "- (pi / 2) \<le> x" "x \<le> pi / 2"
    using radians_range [OF assms(1,2)] by (simp_all add: x_def)
  have xa: "- (pi / 2) \<le> x - a" "x - a \<le> pi / 2"
    using radians_range [OF assms(3,4)] by (simp_all add: x_def a_def radians_diff_degrees)
  have "sin x * cos a + cos x * sin a * cos SOUTH = sin (x - a)"
    by (simp add: SOUTH_def radians_def sin_diff)
  moreover have "arcsin (sin (x - a)) = x - a"
    using xa by (rule arcsin_sin)
  moreover have "0 \<le> cos x * cos (x - a)"
    using x xa by (simp add: cos_ge_zero)
  then have "atan2 0 (cos a - sin x * sin (x - a)) = 0"
    by (simp add: cos_split_diff atan2_zero_nonneg)
  moreover have "sin SOUTH = 0"
    by (simp add: SOUTH_def radians_def)
  moreover have "degrees (x - a) = lat - degrees a"
    by (simp add: x_def degrees_diff)
  ultimately show ?thesis
    by (simp add: get_next_lat_lon_unfold degrees_radians flip: x_def a_def)
qed

lemma step_north:
  assumes "- 90 \<le> lat" and "lat \<le> 90"
    and "- 90 \<le> lat + degrees (d / 6371)" and "lat + degrees (d / 6371) \<le> 90"
  shows "get_next_lat_lon lat lon d NORTH = Inr (lon, lat + degrees (d / 6371))"
proof -
  define x where "x = radians lat"
  define a where "a = d / 6371"
  have x: "- (pi / 2) \<le> x" "x \<le> pi / 2"
    using radians_range [OF assms(1,2)] by (simp_all add: x_def)
  have "radians (lat + degrees a) = x + a"
    by (simp add: radians_def degrees_def x_def algebra_simps)
  then have xa: "- (pi / 2) \<le> x + a" "x + a \<le> pi / 2"
    using radians_range [OF assms(3,4)] by (simp_all add: a_def)
  have "sin x * cos a + cos x * sin a * cos NORTH = sin (x + a)"
    by (simp add: NORTH_def radians_def sin_add)
  moreover have "arcsin (sin (x + a)) = x + a"
    using xa by (rule arcsin_sin)
  moreover have "0 \<le> cos x * cos (x + a)"
    using x xa by (simp add: cos_ge_zero)
  then have "atan2 0 (cos a - sin x * sin (x + a)) = 0"
    by (simp add: cos_split_add atan2_zero_nonneg)
  moreover have "sin NORTH = 0"
    by (simp add: NORTH_def radians_def)
  moreover have "degrees (x + a) = lat + degrees a"
    by (simp add: x_def degrees_add)
  ultimately show ?thesis
    by (simp add: get_next_lat_lon_unfold degrees_radians flip: x_def a_def)
qed

text \<open>
  In exact arithmetic a step due South and a step of the same length due North from the
  point reached return to the start, when the start and the point between lie in
  \<open>[-90, 90]\<close> degrees. At the ends of that range the exact argument of \<open>asin\<close> is \<open>1\<close>
  or \<open>- 1\<close>, where the program's rounded argument can leave the domain.
\<close>

lemma south_then_north_exact:
  assumes "- 90 \<le> lat" and "lat \<le> 90"
    and "- 90 \<le> lat - degrees (angular_distance d)"
    and "lat - degrees (angular_distance d) \<le> 90"
  shows "get_next_lat_lon lat lon d SOUTH = Inr (lon, lat - degrees (angular_distance d)) \<and>
         get_next_lat_lon (lat - degrees (angular_distance d)) lon d NORTH = Inr (lon, lat)"
proof -
  have ad: "angular_distance d = d / 6371"
    by (simp add: angular_distance_def RADIUS_OF_EARTH_def)
  have "get_next_lat_lon (lat - degrees (d / 6371)) lon d NORTH
      = Inr (lon, lat - degrees (d / 6371) + degrees (d / 6371))"
    using assms by (intro step_north) (simp_all add: ad)
  then show ?thesis
    using step_south [of lat d lon] assms by (simp add: ad)
qed

subsection \<open>Steps due East\<close>

lemma pi_ge_three: "3 \<le> pi"
  using sin_x_le_x [of "pi / 6"] by (simp add: sin_30)

lemma radians_strict_range:
  assumes "- 90 < lat" and "lat < 90"
  shows "- (pi / 2) < radians lat" and "radians lat < pi / 2"
proof -
  have "- 90 * (pi / 180) < lat * (pi / 180)"
    using assms(1) by (intro mult_strict_right_mono) simp_all
  then show "- (pi / 2) < radians lat"
    by (simp add: radians_def)
  have "lat * (pi / 180) < 90 * (pi / 180)"
    using assms(2) by (intro mult_strict_right_mono) simp_all
  then show "radians lat < pi / 2"
    by (simp add: radians_def)
qed


lemma degrees_mono: "x \<le> y \<Longrightarrow> degrees x \<le> degrees y"
  by (simp add: degrees_def field_simps)

lemma degrees_pos: "0 < x \<Longrightarrow> 0 < degrees x"
  by (simp add: degrees_def)

lemma sin_cos_abs_less_one:
  fixes x a :: real
  assumes "- (pi / 2) < x" and "x < pi / 2"
  shows "\<bar>sin x * cos a\<bar> < 1"
proof -
  have "0 < cos x" using assms by (rule cos_gt_zero_pi)
  then have "0 < (cos x)\<^sup>2" by simp
  then have "(sin x)\<^sup>2 < 1" by (simp add: sin_squared_eq)
  then have "\<bar>sin x\<bar> < 1" by (simp add: abs_square_less_1)
  moreover have "\<bar>cos a\<bar> \<le> 1" by simp
  then have "\<bar>sin x\<bar> * \<bar>cos a\<bar> \<le> \<bar>sin x\<bar>"
    by (intro mult_left_le) simp_all
  ultimately show ?thesis by (simp add: abs_mult)
qed

text \<open>
  Away from the poles and for a step of less than a quarter of a great circle, a step
  due East moves the longitude by \<open>arctan (tan ad / cos lat)\<close>, which is at least the
  angular distance, and keeps the latitude away from the poles.
\<close>

lemma step_east:
  assumes "- 90 < lat" and "lat < 90" and "0 < d" and "d / 6371 < pi / 2"
  shows "get_next_lat_lon lat lon d EAST =
           Inr (lon + degrees (arctan (tan (d / 6371) / cos (radians lat))),
                degrees (arcsin (sin (radians lat) * cos (d / 6371))))"
proof -
  define x where "x = radians lat"
  define a where "a = d / 6371"
  have x: "- (pi / 2) < x" "x < pi / 2"
    using radians_strict_range [OF assms(1,2)] by (simp_all add: x_def)
  have a: "0 < a" "a < pi / 2"
    using assms(3,4) by (simp_all add: a_def)
  have cx: "0 < cos x" using x by (rule cos_gt_zero_pi)
  have ca: "0 < cos a" using a by (rule cos_gt_zero)
  have sa: "0 < sin a" using a by (rule sin_gt_zero2)
  have east: "sin EAST = 1" "cos EAST = 0"
    by (simp_all add: EAST_def radians_def)
  have "\<bar>sin x * cos a\<bar> < 1"
    using x by (rule sin_cos_abs_less_one)
  then have sin_lat2: "sin (arcsin (sin x * cos a)) = sin x * cos a"
    by (intro sin_arcsin) linarith+
  have "cos x * cos x + sin x * sin x = 1"
    by (rule sin_cos_squared_add3)
  then have "1 - sin x * sin x = cos x * cos x" by linarith
  moreover have "cos a - sin x * (sin x * cos a) = cos a * (1 - sin x * sin x)"
    by (simp add: algebra_simps)
  ultimately have right: "cos a - sin x * (sin x * cos a) = cos a * (cos x * cos x)"
    by (simp only:)
  have pos: "0 < cos a * (cos x * cos x)"
    using cx ca by simp
  have "sin a * cos x / (cos a * (cos x * cos x)) = tan a / cos x"
    using cx ca by (simp add: tan_def field_simps)
  then have "atan2 (sin a * cos x) (cos a * (cos x * cos x)) = arctan (tan a / cos x)"
    using pos by (simp add: atan2_def)
  moreover have "degrees (radians lon + arctan (tan a / cos x))
      = lon + degrees (arctan (tan a / cos x))"
    by (rule degrees_add)
  ultimately show ?thesis
    by (simp add: get_next_lat_lon_unfold east sin_lat2 right flip: x_def a_def)
qed

lemma step_east_lon:
  assumes "- (pi / 2) < x" and "x < pi / 2" and "0 < a" and "a < pi / 2"
  shows "a \<le> arctan (tan a / cos x)"
proof -
  have cx: "0 < cos x" using assms(1,2) by (rule cos_gt_zero_pi)
  have "0 < tan a" using assms(3,4) by (rule tan_gt_zero)
  moreover have "cos x \<le> 1" by simp
  ultimately have "tan a \<le> tan a / cos x"
    using cx by (simp add: field_simps)
  then have "arctan (tan a) \<le> arctan (tan a / cos x)"
    by (rule arctan_monotone')
  moreover have "arctan (tan a) = a"
    using assms(3,4) by (intro arctan_tan) linarith+
  ultimately show ?thesis by simp
qed


section \<open>Properties of the line walkers\<close>

lemma get_next_lat_lon_returns: "\<exists>lon' lat'. get_next_lat_lon lat lon d b = Inr (lon', lat')"
  by (simp add: get_next_lat_lon_unfold)

lemma get_points_south_stop:
  "lat < t \<Longrightarrow> get_points_south lat lon t d acc = Some (Inr (acc @ [(lon, lat)]))"
  by (subst get_points_south.simps) simp

lemma get_points_south_step:
  "\<not> lat < t \<Longrightarrow> get_next_lat_lon lat lon d SOUTH = Inr (lon', lat') \<Longrightarrow>
   get_points_south lat lon t d acc = get_points_south lat' lon' t d (acc @ [(lon, lat)])"
  by (subst get_points_south.simps) simp

lemma get_points_east_stop:
  "t < lon \<Longrightarrow> get_points_east lat lon t d acc = Some (Inr (acc @ [(lon, lat)]))"
  by (subst get_points_east.simps) simp

lemma get_points_east_step:
  "\<not> t < lon \<Longrightarrow> get_next_lat_lon lat lon d EAST = Inr (lon', lat') \<Longrightarrow>
   get_points_east lat lon t d acc = get_points_east lat' lon' t d (acc @ [(lon, lat)])"
  by (subst get_points_east.simps) simp

text \<open>
  What a returning walk looks like, for any accumulator: the accumulator, then the
  start point, then points that all fail the stop test except the last one.
\<close>

lemma get_points_south_shape:
  assumes "get_points_south lat lon t d acc = Some r"
  shows "\<exists>new. r = Inr (acc @ (lon, lat) # new) \<and>
           snd (last ((lon, lat) # new)) < t \<and>
           (\<forall>p \<in> set (butlast ((lon, lat) # new)). t \<le> snd p)"
  using assms
proof (induction lat lon t d acc r
    rule: get_points_south.raw_induct [rotated 1, consumes 1, case_names step])
  case (step walk lat lon t d acc r)
  note IH = step(1) and body = step(2)
  show ?case
  proof (cases "lat < t")
    case True
    with body have "r = Inr (acc @ [(lon, lat)])" by simp
    with True show ?thesis by simp
  next
    case False
    obtain lon' lat' where nxt: "get_next_lat_lon lat lon d SOUTH = Inr (lon', lat')"
      using get_next_lat_lon_returns by blast
    with False body have "walk lat' lon' t d (acc @ [(lon, lat)]) = Some r" by simp
    from IH [OF this] obtain new where
      r: "r = Inr ((acc @ [(lon, lat)]) @ (lon', lat') # new)" and
      l: "snd (last ((lon', lat') # new)) < t" and
      b: "\<forall>p \<in> set (butlast ((lon', lat') # new)). t \<le> snd p"
      by blast
    have "r = Inr (acc @ (lon, lat) # ((lon', lat') # new))"
      using r by simp
    moreover have "snd (last ((lon, lat) # (lon', lat') # new)) < t"
      using l by simp
    moreover have "\<forall>p \<in> set (butlast ((lon, lat) # (lon', lat') # new)). t \<le> snd p"
      using b False by simp
    ultimately show ?thesis by blast
  qed
qed

lemma get_points_east_shape:
  assumes "get_points_east lat lon t d acc = Some r"
  shows "\<exists>new. r = Inr (acc @ (lon, lat) # new) \<and>
           t < fst (last ((lon, lat) # new)) \<and>
           (\<forall>p \<in> set (butlast ((lon, lat) # new)). fst p \<le> t)"
  using assms
proof (induction lat lon t d acc r
    rule: get_points_east.raw_induct [rotated 1, consumes 1, case_names step])
  case (step walk lat lon t d acc r)
  note IH = step(1) and body = step(2)
  show ?case
  proof (cases "t < lon")
    case True
    with body have "r = Inr (acc @ [(lon, lat)])" by simp
    with True show ?thesis by simp
  next
    case False
    obtain lon' lat' where nxt: "get_next_lat_lon lat lon d EAST = Inr (lon', lat')"
      using get_next_lat_lon_returns by blast
    with False body have "walk lat' lon' t d (acc @ [(lon, lat)]) = Some r" by simp
    from IH [OF this] obtain new where
      r: "r = Inr ((acc @ [(lon, lat)]) @ (lon', lat') # new)" and
      l: "t < fst (last ((lon', lat') # new))" and
      b: "\<forall>p \<in> set (butlast ((lon', lat') # new)). fst p \<le> t"
      by blast
    have "r = Inr (acc @ (lon, lat) # ((lon', lat') # new))"
      using r by simp
    moreover have "t < fst (last ((lon, lat) # (lon', lat') # new))"
      using l by simp
    moreover have "\<forall>p \<in> set (butlast ((lon, lat) # (lon', lat') # new)). fst p \<le> t"
      using b False by simp
    ultimately show ?thesis by blast
  qed
qed

subsection \<open>Two walks evaluated\<close>

text \<open>
  A step of 6371 km is an angular distance of one radian. From the origin with the
  target equal to the start, each walker emits the start point, steps once and stops.
\<close>

lemma degrees_one: "degrees 1 = 180 / pi"
  by (simp add: degrees_def)

lemma degrees_one_bounds: "0 < degrees 1" "degrees 1 \<le> 60"
  using pi_ge_three by (simp_all add: degrees_def field_simps)

lemma step_south_origin: "get_next_lat_lon 0 0 6371 SOUTH = Inr (0, - (180 / pi))"
proof -
  have "- 90 \<le> 0 - degrees (6371 / 6371)" and "0 - degrees (6371 / 6371) \<le> 90"
    using degrees_one_bounds by simp_all
  then have "get_next_lat_lon 0 0 6371 SOUTH = Inr (0, 0 - degrees (6371 / 6371))"
    by (intro step_south) simp_all
  then show ?thesis by (simp add: degrees_one)
qed

lemma one_less_pi_half: "1 < pi / 2"
  using pi_ge_three by simp

lemma step_east_origin: "get_next_lat_lon 0 0 6371 EAST = Inr (180 / pi, 0)"
proof -
  have "arctan (tan 1) = 1"
    using one_less_pi_half by (intro arctan_tan) linarith+
  then show ?thesis
    using step_east [of 0 6371 0] one_less_pi_half
    by (simp add: radians_def degrees_def)
qed

lemma walk_south_origin:
  "get_points_south 0 0 0 6371 [] = Some (Inr [(0, 0), (0, - (180 / pi))])"
proof -
  have "get_points_south 0 0 0 6371 [] = get_points_south (- (180 / pi)) 0 0 6371 [(0, 0)]"
    using step_south_origin by (subst get_points_south_step) simp_all
  also have "\<dots> = Some (Inr ([(0, 0)] @ [(0, - (180 / pi))]))"
    by (rule get_points_south_stop) simp
  finally show ?thesis by simp
qed

lemma walk_east_origin:
  "get_points_east 0 0 0 6371 [] = Some (Inr [(0, 0), (180 / pi, 0)])"
proof -
  have "get_points_east 0 0 0 6371 [] = get_points_east 0 (180 / pi) 0 6371 [(0, 0)]"
    using step_east_origin by (subst get_points_east_step) simp_all
  also have "\<dots> = Some (Inr ([(0, 0)] @ [(180 / pi, 0)]))"
    by (rule get_points_east_stop) simp
  finally show ?thesis by simp
qed

subsection \<open>The overshoot\<close>

text \<open>
  C2. Every call of \<open>get_points_south\<close> with an empty accumulator that terminates
  returns a sequence, not an error; the sequence is non-empty, its last point has a
  latitude strictly below the target latitude, and every point before the last has a
  latitude greater than or equal to the target. Symmetrically, a terminating call of
  \<open>get_points_east\<close> returns a non-empty sequence whose last point has a longitude
  strictly above the target longitude, all earlier points having a longitude less than
  or equal to it.
\<close>

theorem walk_overshoots_by_one:
  "(get_points_south lat lon lat_end d [] = Some r \<longrightarrow>
      (\<exists>ps. r = Inr ps \<and> ps \<noteq> [] \<and> snd (last ps) < lat_end \<and>
         (\<forall>p \<in> set (butlast ps). lat_end \<le> snd p))) \<and>
   (get_points_east lat lon lon_end d [] = Some r' \<longrightarrow>
      (\<exists>ps. r' = Inr ps \<and> ps \<noteq> [] \<and> lon_end < fst (last ps) \<and>
         (\<forall>p \<in> set (butlast ps). fst p \<le> lon_end)))"
proof (intro conjI impI)
  assume "get_points_south lat lon lat_end d [] = Some r"
  from get_points_south_shape [OF this] obtain new where
    "r = Inr ((lon, lat) # new)" "snd (last ((lon, lat) # new)) < lat_end"
    "\<forall>p \<in> set (butlast ((lon, lat) # new)). lat_end \<le> snd p"
    by auto
  then show "\<exists>ps. r = Inr ps \<and> ps \<noteq> [] \<and> snd (last ps) < lat_end \<and>
         (\<forall>p \<in> set (butlast ps). lat_end \<le> snd p)"
    by blast
next
  assume "get_points_east lat lon lon_end d [] = Some r'"
  from get_points_east_shape [OF this] obtain new where
    "r' = Inr ((lon, lat) # new)" "lon_end < fst (last ((lon, lat) # new))"
    "\<forall>p \<in> set (butlast ((lon, lat) # new)). fst p \<le> lon_end"
    by auto
  then show "\<exists>ps. r' = Inr ps \<and> ps \<noteq> [] \<and> lon_end < fst (last ps) \<and>
         (\<forall>p \<in> set (butlast ps). fst p \<le> lon_end)"
    by blast
qed

theorem walk_overshoots_by_one_witness:
  "get_points_south 0 0 0 6371 [] = Some (Inr [(0, 0), (0, - (180 / pi))]) \<and>
   snd (last [(0, 0), (0, - (180 / pi))]) < (0::real) \<and>
   (0::real) \<le> snd (0::real, 0::real) \<and>
   get_points_east 0 0 0 6371 [] = Some (Inr [(0, 0), (180 / pi, 0)]) \<and>
   (0::real) < fst (last [(180 / pi, 0::real)]) \<and>
   fst (0::real, 0::real) \<le> (0::real)"
  using walk_overshoots_by_one [of 0 0 0 6371 "Inr [(0, 0), (0, - (180 / pi))]"
      0 "Inr [(0, 0), (180 / pi, 0)]"]
    walk_south_origin walk_east_origin
  by simp

subsection \<open>When a walk is a single point\<close>

text \<open>
  C3, as the code has it. The stop test is strict, so a start on the boundary does not
  stop the walk. \<open>get_points_south\<close> with an empty accumulator returns exactly the
  start point if and only if the start latitude is strictly less than the target
  latitude, and \<open>get_points_east\<close> returns exactly the start point if and only if the
  start longitude is strictly greater than the target longitude. With the start on the
  boundary the walk steps at least once more.
\<close>

theorem walk_single_point_iff:
  "(get_points_south lat lon lat_end d [] = Some (Inr [(lon, lat)])) = (lat < lat_end) \<and>
   (get_points_east lat lon lon_end d [] = Some (Inr [(lon, lat)])) = (lon_end < lon)"
proof -
  have "lat < lat_end" if "get_points_south lat lon lat_end d [] = Some (Inr [(lon, lat)])"
  proof (rule ccontr)
    assume stop: "\<not> lat < lat_end"
    obtain lon' lat' where "get_next_lat_lon lat lon d SOUTH = Inr (lon', lat')"
      using get_next_lat_lon_returns by blast
    with stop that
    have "get_points_south lat' lon' lat_end d ([] @ [(lon, lat)]) = Some (Inr [(lon, lat)])"
      by (simp add: get_points_south_step)
    from get_points_south_shape [OF this] show False by simp
  qed
  moreover have "lon_end < lon"
    if "get_points_east lat lon lon_end d [] = Some (Inr [(lon, lat)])"
  proof (rule ccontr)
    assume stop: "\<not> lon_end < lon"
    obtain lon' lat' where "get_next_lat_lon lat lon d EAST = Inr (lon', lat')"
      using get_next_lat_lon_returns by blast
    with stop that
    have "get_points_east lat' lon' lon_end d ([] @ [(lon, lat)]) = Some (Inr [(lon, lat)])"
      by (simp add: get_points_east_step)
    from get_points_east_shape [OF this] show False by simp
  qed
  ultimately show ?thesis
    using get_points_south_stop [of lat lat_end lon d "[]"]
      get_points_east_stop [of lon_end lon lat d "[]"]
    by auto
qed

theorem walk_start_on_boundary_counterexample:
  "get_points_south 0 0 0 6371 [] = Some (Inr [(0, 0), (0, - (180 / pi))]) \<and>
   get_points_south 0 0 0 6371 [] \<noteq> Some (Inr [(0, 0)])"
  using walk_south_origin by simp

section \<open>Properties of the polygon assembler and the encoders\<close>

lemma get_square_at_rc_in_range:
  assumes "r + 1 < length m" and "c + 1 < length (m ! r)" and "c + 1 < length (m ! (r + 1))"
  shows "get_square_at_rc r c m = Inr (spec_quad m r c)"
  using assms by (simp add: get_square_at_rc_def getitem2_def getitem_def spec_quad_def)

lemma get_polygons_cols_in_range:
  assumes "r + 1 < length m" and "\<forall>c \<in> set cs. c + 1 < length (m ! r)"
    and "\<forall>c \<in> set cs. c + 1 < length (m ! (r + 1))"
  shows "get_polygons_cols r m cs polys = Inr (polys @ map (spec_quad m r) cs)"
  using assms
proof (induction cs arbitrary: polys)
  case Nil
  then show ?case by simp
next
  case (Cons c cs)
  then show ?case by (simp add: get_square_at_rc_in_range)
qed

lemma get_polygons_rows_rectangular:
  assumes "\<forall>row \<in> set m. length row = C" and "\<forall>r \<in> set rs. r + 1 < length m"
  shows "get_polygons_rows m rs polys =
           Inr (polys @ concat (map (\<lambda>r. map (spec_quad m r) [0..<C - 1]) rs))"
  using assms(2)
proof (induction rs arbitrary: polys)
  case Nil
  then show ?case by simp
next
  case (Cons r rs)
  then have r: "r + 1 < length m" by simp
  then have len: "length (m ! r) = C" "length (m ! (r + 1)) = C"
    using assms(1) by simp_all
  have "get_polygons_cols r m [0..<C - 1] polys = Inr (polys @ map (spec_quad m r) [0..<C - 1])"
    using r len by (intro get_polygons_cols_in_range) auto
  with Cons r len show ?case by (simp add: getitem_def)
qed

lemma get_polygons_rectangular:
  assumes "\<forall>row \<in> set m. length row = C"
  shows "get_polygons m =
           Inr (concat (map (\<lambda>r. map (spec_quad m r) [0..<C - 1]) [0..<length m - 1]))"
proof -
  have "\<forall>r \<in> set [0..<length m - 1]. r + 1 < length m" by auto
  from get_polygons_rows_rectangular [OF assms this, of "[]"]
  show ?thesis by (simp add: get_polygons_def)
qed

lemma length_cells:
  "length (concat (map (\<lambda>r. map (f r) [0..<C - 1]) [0..<R - 1])) = (R - 1) * (C - 1)"
  by (simp add: length_concat comp_def sum_list_triv)

text \<open>
  C4. For every rectangular \<open>R\<close>-by-\<open>C\<close> point matrix with \<open>R \<ge> 1\<close> and \<open>C \<ge> 1\<close>,
  \<open>get_polygons\<close> returns normally with exactly \<open>(R - 1) * (C - 1)\<close> quads: for \<open>r\<close>
  from \<open>0\<close> to \<open>R - 2\<close> and, within each \<open>r\<close>, for \<open>c\<close> from \<open>0\<close> to \<open>C - 2\<close>, the quad
  \<open>(matrix[r][c], matrix[r+1][c], matrix[r+1][c+1], matrix[r][c+1])\<close>, in that order.
\<close>

theorem get_polygons_cells:
  assumes "length m = R" and "\<forall>row \<in> set m. length row = C" and "1 \<le> R" and "1 \<le> C"
  shows "get_polygons m =
           Inr (concat (map (\<lambda>r. map (\<lambda>c.
                  [m ! r ! c, m ! (r + 1) ! c, m ! (r + 1) ! (c + 1), m ! r ! (c + 1)])
                [0..<C - 1]) [0..<R - 1])) \<and>
         (\<forall>polys. get_polygons m = Inr polys \<longrightarrow> length polys = (R - 1) * (C - 1))"
proof -
  have cells: "get_polygons m =
      Inr (concat (map (\<lambda>r. map (spec_quad m r) [0..<C - 1]) [0..<R - 1]))"
    using get_polygons_rectangular [OF assms(2)] assms(1) by simp
  have quad: "spec_quad m = (\<lambda>r c.
      [m ! r ! c, m ! (r + 1) ! c, m ! (r + 1) ! (c + 1), m ! r ! (c + 1)])"
    by (simp add: spec_quad_def fun_eq_iff)
  have "length (concat (map (\<lambda>r. map (spec_quad m r) [0..<C - 1]) [0..<R - 1]))
      = (R - 1) * (C - 1)"
    by (rule length_cells)
  with cells show ?thesis
    by (simp add: quad)
qed

theorem get_polygons_cells_witness:
  "length [[1, 2, 3], [4, 5, 6 :: nat]] = 2 \<and>
   length [1, 2, 3 :: nat] = 3 \<and> length [4, 5, 6 :: nat] = 3 \<and>
   (1::nat) \<le> 2 \<and> (1::nat) \<le> 3 \<and>
   get_polygons [[1, 2, 3], [4, 5, 6 :: nat]] = Inr [[1, 4, 5, 2], [2, 5, 6, 3]] \<and>
   length [[1, 4, 5, 2], [2, 5, 6, 3 :: nat]] = (2 - 1) * (3 - 1)"
  using get_polygons_cells [of "[[1, 2, 3], [4, 5, 6 :: nat]]" 2 3]
  by (simp add: upt_conv_Cons)






section \<open>Properties of the grid builders\<close>

subsection \<open>Walks of two points\<close>

lemma walk_south_two:
  assumes "- 90 \<le> lat" and "lat \<le> 90" and "- 90 \<le> lat - degrees (d / 6371)"
    and "lat_end \<le> lat" and "lat - degrees (d / 6371) < lat_end"
  shows "get_points_south lat lon lat_end d acc =
           Some (Inr (acc @ [(lon, lat), (lon, lat - degrees (d / 6371))]))"
proof -
  have "lat - degrees (d / 6371) \<le> 90"
    using assms(2,4,5) by linarith
  then have "get_next_lat_lon lat lon d SOUTH = Inr (lon, lat - degrees (d / 6371))"
    using assms(1,2,3) by (intro step_south)
  then have "get_points_south lat lon lat_end d acc =
      get_points_south (lat - degrees (d / 6371)) lon lat_end d (acc @ [(lon, lat)])"
    using assms(4) by (intro get_points_south_step) simp_all
  also have "\<dots> = Some (Inr ((acc @ [(lon, lat)]) @ [(lon, lat - degrees (d / 6371))]))"
    using assms(5) by (rule get_points_south_stop)
  finally show ?thesis by simp
qed

lemma walk_east_two:
  assumes "- 90 < lat" and "lat < 90" and "0 < d" and "d / 6371 < pi / 2"
    and "lon \<le> lon_end"
    and "lon_end < lon + degrees (arctan (tan (d / 6371) / cos (radians lat)))"
  shows "get_points_east lat lon lon_end d acc =
           Some (Inr (acc @ [(lon, lat),
             (lon + degrees (arctan (tan (d / 6371) / cos (radians lat))),
              degrees (arcsin (sin (radians lat) * cos (d / 6371))))]))"
proof -
  let ?lon' = "lon + degrees (arctan (tan (d / 6371) / cos (radians lat)))"
  let ?lat' = "degrees (arcsin (sin (radians lat) * cos (d / 6371)))"
  have "get_next_lat_lon lat lon d EAST = Inr (?lon', ?lat')"
    using assms(1-4) by (rule step_east)
  then have "get_points_east lat lon lon_end d acc =
      get_points_east ?lat' ?lon' lon_end d (acc @ [(lon, lat)])"
    using assms(5) by (intro get_points_east_step) simp_all
  also have "\<dots> = Some (Inr ((acc @ [(lon, lat)]) @ [(?lon', ?lat')]))"
    using assms(6) by (rule get_points_east_stop)
  finally show ?thesis by simp
qed

lemma east_step_moves:
  assumes "- 90 < lat" and "lat < 90" and "0 < d" and "d / 6371 < pi / 2"
  shows "degrees (d / 6371) \<le> degrees (arctan (tan (d / 6371) / cos (radians lat)))"
    and "0 < degrees (arctan (tan (d / 6371) / cos (radians lat)))"
proof -
  have "d / 6371 \<le> arctan (tan (d / 6371) / cos (radians lat))"
    using radians_strict_range [OF assms(1,2)] assms(3,4) by (intro step_east_lon) simp_all
  then show "degrees (d / 6371) \<le> degrees (arctan (tan (d / 6371) / cos (radians lat)))"
    by (rule degrees_mono)
  moreover have "0 < degrees (d / 6371)"
    using assms(3) by (intro degrees_pos) simp
  ultimately show "0 < degrees (arctan (tan (d / 6371) / cos (radians lat)))"
    by linarith
qed

subsection \<open>The shape of a grid\<close>

text \<open>
  Each row of a returned matrix is the inner walk from the corresponding point of the
  outer walk.
\<close>

lemma south_then_east_loop_shape:
  assumes "south_then_east_loop lon_end d anchors acc = Some r"
  shows "\<exists>rows. r = Inr (acc @ rows) \<and>
           list_all2 (\<lambda>a row. get_points_east (snd a) (fst a) lon_end d [] = Some (Inr row))
             anchors rows"
  using assms
proof (induction anchors arbitrary: acc)
  case Nil
  then show ?case by simp
next
  case (Cons a anchors)
  obtain lon lat where a: "a = (lon, lat)" by (cases a)
  from Cons.prems obtain w where w: "get_points_east lat lon lon_end d [] = Some w"
    by (cases "get_points_east lat lon lon_end d []") (simp_all add: a)
  from get_points_east_shape [OF w] obtain row where row: "w = Inr row"
    by auto
  with Cons.prems w
  have "south_then_east_loop lon_end d anchors (acc @ [row]) = Some r"
    by (simp add: a)
  from Cons.IH [OF this] obtain rows where
    "r = Inr ((acc @ [row]) @ rows)"
    "list_all2 (\<lambda>a row. get_points_east (snd a) (fst a) lon_end d [] = Some (Inr row))
       anchors rows"
    by blast
  then have "r = Inr (acc @ row # rows) \<and>
      list_all2 (\<lambda>a row. get_points_east (snd a) (fst a) lon_end d [] = Some (Inr row))
        (a # anchors) (row # rows)"
    using w row by (simp add: a)
  then show ?case by blast
qed

lemma east_then_south_loop_shape:
  assumes "east_then_south_loop lat_end d anchors acc = Some r"
  shows "\<exists>rows. r = Inr (acc @ rows) \<and>
           list_all2 (\<lambda>a row. get_points_south (snd a) (fst a) lat_end d [] = Some (Inr row))
             anchors rows"
  using assms
proof (induction anchors arbitrary: acc)
  case Nil
  then show ?case by simp
next
  case (Cons a anchors)
  obtain lon lat where a: "a = (lon, lat)" by (cases a)
  from Cons.prems obtain w where w: "get_points_south lat lon lat_end d [] = Some w"
    by (cases "get_points_south lat lon lat_end d []") (simp_all add: a)
  from get_points_south_shape [OF w] obtain row where row: "w = Inr row"
    by auto
  with Cons.prems w
  have "east_then_south_loop lat_end d anchors (acc @ [row]) = Some r"
    by (simp add: a)
  from Cons.IH [OF this] obtain rows where
    "r = Inr ((acc @ [row]) @ rows)"
    "list_all2 (\<lambda>a row. get_points_south (snd a) (fst a) lat_end d [] = Some (Inr row))
       anchors rows"
    by blast
  then have "r = Inr (acc @ row # rows) \<and>
      list_all2 (\<lambda>a row. get_points_south (snd a) (fst a) lat_end d [] = Some (Inr row))
        (a # anchors) (row # rows)"
    using w row by (simp add: a)
  then show ?case by blast
qed

lemma east_rows_nonempty:
  "list_all2 (\<lambda>a row. get_points_east (snd a) (fst a) lon_end d [] = Some (Inr row)) anchors rows
   \<Longrightarrow> \<forall>row \<in> set rows. row \<noteq> []"
proof (induction anchors rows rule: list_all2_induct)
  case Nil
  then show ?case by simp
next
  case (Cons a anchors row rows)
  from get_points_east_shape [OF Cons.hyps(1)] have "row \<noteq> []" by auto
  with Cons.IH show ?case by simp
qed

lemma south_rows_nonempty:
  "list_all2 (\<lambda>a row. get_points_south (snd a) (fst a) lat_end d [] = Some (Inr row)) anchors rows
   \<Longrightarrow> \<forall>row \<in> set rows. row \<noteq> []"
proof (induction anchors rows rule: list_all2_induct)
  case Nil
  then show ?case by simp
next
  case (Cons a anchors row rows)
  from get_points_south_shape [OF Cons.hyps(1)] have "row \<noteq> []" by auto
  with Cons.IH show ?case by simp
qed

lemma south_then_east_rows:
  assumes "get_points_south_then_east lat lon lat_end lon_end d = Some r"
  shows "\<exists>new row0 rows.
           get_points_south lat lon lat_end d [] = Some (Inr ((lon, lat) # new)) \<and>
           get_points_east lat lon lon_end d [] = Some (Inr row0) \<and>
           r = Inr (row0 # rows) \<and>
           list_all2 (\<lambda>a row. get_points_east (snd a) (fst a) lon_end d [] = Some (Inr row))
             new rows"
proof -
  from assms obtain w where w: "get_points_south lat lon lat_end d [] = Some w"
    by (cases "get_points_south lat lon lat_end d []")
      (simp_all add: get_points_south_then_east_def)
  from get_points_south_shape [OF w] obtain new where new: "w = Inr ((lon, lat) # new)"
    by auto
  with assms w have "south_then_east_loop lon_end d ((lon, lat) # new) [] = Some r"
    by (simp add: get_points_south_then_east_def)
  from south_then_east_loop_shape [OF this] obtain rows where
    "r = Inr rows"
    "list_all2 (\<lambda>a row. get_points_east (snd a) (fst a) lon_end d [] = Some (Inr row))
       ((lon, lat) # new) rows"
    by auto
  then show ?thesis
    using w new by (auto simp: list_all2_Cons1)
qed

lemma east_then_south_rows:
  assumes "get_points_east_then_south lat lon lat_end lon_end d = Some r"
  shows "\<exists>new row0 rows.
           get_points_east lat lon lon_end d [] = Some (Inr ((lon, lat) # new)) \<and>
           get_points_south lat lon lat_end d [] = Some (Inr row0) \<and>
           r = Inr (row0 # rows) \<and>
           list_all2 (\<lambda>a row. get_points_south (snd a) (fst a) lat_end d [] = Some (Inr row))
             new rows"
proof -
  from assms obtain w where w: "get_points_east lat lon lon_end d [] = Some w"
    by (cases "get_points_east lat lon lon_end d []")
      (simp_all add: get_points_east_then_south_def)
  from get_points_east_shape [OF w] obtain new where new: "w = Inr ((lon, lat) # new)"
    by auto
  with assms w have "east_then_south_loop lat_end d ((lon, lat) # new) [] = Some r"
    by (simp add: get_points_east_then_south_def)
  from east_then_south_loop_shape [OF this] obtain rows where
    "r = Inr rows"
    "list_all2 (\<lambda>a row. get_points_south (snd a) (fst a) lat_end d [] = Some (Inr row))
       ((lon, lat) # new) rows"
    by auto
  then show ?thesis
    using w new by (auto simp: list_all2_Cons1)
qed

lemma south_then_east_shape:
  assumes "get_points_south_then_east lat lon lat_end lon_end d = Some r"
  shows "\<exists>first rows. r = Inr (((lon, lat) # first) # rows) \<and> (\<forall>row \<in> set rows. row \<noteq> [])"
proof -
  from south_then_east_rows [OF assms] obtain new row0 rows where
    row0: "get_points_east lat lon lon_end d [] = Some (Inr row0)" and
    r: "r = Inr (row0 # rows)" and
    rows: "list_all2 (\<lambda>a row. get_points_east (snd a) (fst a) lon_end d [] = Some (Inr row))
       new rows"
    by blast
  from get_points_east_shape [OF row0] obtain first where "row0 = (lon, lat) # first"
    by auto
  with r east_rows_nonempty [OF rows] show ?thesis by blast
qed

lemma east_then_south_shape:
  assumes "get_points_east_then_south lat lon lat_end lon_end d = Some r"
  shows "\<exists>first rows. r = Inr (((lon, lat) # first) # rows) \<and> (\<forall>row \<in> set rows. row \<noteq> [])"
proof -
  from east_then_south_rows [OF assms] obtain new row0 rows where
    row0: "get_points_south lat lon lat_end d [] = Some (Inr row0)" and
    r: "r = Inr (row0 # rows)" and
    rows: "list_all2 (\<lambda>a row. get_points_south (snd a) (fst a) lat_end d [] = Some (Inr row))
       new rows"
    by blast
  from get_points_south_shape [OF row0] obtain first where "row0 = (lon, lat) # first"
    by auto
  with r south_rows_nonempty [OF rows] show ?thesis by blast
qed

subsection \<open>Grids evaluated\<close>

text \<open>
  With the north-west corner equal to the south-east corner, away from the poles and
  for a step shorter than a quarter of a great circle, both walks start on their
  boundary and take one step each.
\<close>

lemma grid_corner_equal:
  assumes "- 90 < lat" and "lat < 90" and "0 < d" and "d / 6371 < pi / 2"
    and "- 90 < lat - degrees (d / 6371)"
  shows "get_points_south_then_east lat lon lat lon d =
     Some (Inr [[(lon, lat),
                 (lon + degrees (arctan (tan (d / 6371) / cos (radians lat))),
                  degrees (arcsin (sin (radians lat) * cos (d / 6371))))],
                [(lon, lat - degrees (d / 6371)),
                 (lon + degrees (arctan (tan (d / 6371) /
                    cos (radians (lat - degrees (d / 6371))))),
                  degrees (arcsin (sin (radians (lat - degrees (d / 6371))) *
                    cos (d / 6371))))]])"
proof -
  have pos: "0 < degrees (d / 6371)"
    using assms(3) by (intro degrees_pos) simp
  have south: "get_points_south lat lon lat d [] =
      Some (Inr ([] @ [(lon, lat), (lon, lat - degrees (d / 6371))]))"
    using assms(1,2,5) pos by (intro walk_south_two) simp_all
  have lat1: "- 90 < lat - degrees (d / 6371)" "lat - degrees (d / 6371) < 90"
    using assms(2,5) pos by simp_all
  have row0: "get_points_east lat lon lon d [] =
      Some (Inr ([] @ [(lon, lat),
        (lon + degrees (arctan (tan (d / 6371) / cos (radians lat))),
         degrees (arcsin (sin (radians lat) * cos (d / 6371))))]))"
    using assms(1-4) east_step_moves(2) [OF assms(1-4)]
    by (intro walk_east_two) simp_all
  have row1: "get_points_east (lat - degrees (d / 6371)) lon lon d [] =
      Some (Inr ([] @ [(lon, lat - degrees (d / 6371)),
        (lon + degrees (arctan (tan (d / 6371) / cos (radians (lat - degrees (d / 6371))))),
         degrees (arcsin (sin (radians (lat - degrees (d / 6371))) * cos (d / 6371))))]))"
    using lat1 assms(3,4) east_step_moves(2) [OF lat1 assms(3,4)]
    by (intro walk_east_two) simp_all
  show ?thesis
    by (simp add: get_points_south_then_east_def south row0 row1)
qed

lemma degrees_five_km: "0 < degrees (5 / 6371)" "degrees (5 / 6371) \<le> 1"
  using pi_ge_three by (simp_all add: degrees_def field_simps)

lemma grid_corner_hawaii:
  "get_points_south_then_east 21 (- 158) 21 (- 158) 5 =
   Some (Inr
   [[(- 158, 21),
     (- 158 + degrees (arctan (tan (5 / 6371) / cos (radians 21))),
      degrees (arcsin (sin (radians 21) * cos (5 / 6371))))],
    [(- 158, 21 - degrees (5 / 6371)),
     (- 158 + degrees (arctan (tan (5 / 6371) / cos (radians (21 - degrees (5 / 6371))))),
      degrees (arcsin (sin (radians (21 - degrees (5 / 6371))) * cos (5 / 6371))))]])"
proof (rule grid_corner_equal)
  show "5 / 6371 < pi / 2"
    using pi_ge_three by simp
  show "- 90 < 21 - degrees (5 / 6371)"
    using degrees_five_km by linarith
qed simp_all

lemma grid_origin_east_then_south:
  "get_points_east_then_south 0 0 0 0 6371 =
     Some (Inr [[(0, 0), (0, - (180 / pi))], [(180 / pi, 0), (180 / pi, - (180 / pi))]])"
proof -
  have b: "- 90 \<le> 0 - degrees (6371 / 6371)" "0 - degrees (6371 / 6371) < 0"
    using degrees_one_bounds by simp_all
  have "get_points_south 0 0 0 6371 [] =
      Some (Inr ([] @ [(0, 0), (0, 0 - degrees (6371 / 6371))]))"
    using b by (intro walk_south_two) simp_all
  moreover have "get_points_south 0 (180 / pi) 0 6371 [] =
      Some (Inr ([] @ [(180 / pi, 0), (180 / pi, 0 - degrees (6371 / 6371))]))"
    using b by (intro walk_south_two) simp_all
  ultimately show ?thesis
    by (simp add: get_points_east_then_south_def walk_east_origin degrees_one)
qed

lemma grid_single_point:
  assumes "lat < lat_end" and "lon_end < lon"
  shows "get_points_south_then_east lat lon lat_end lon_end d = Some (Inr [[(lon, lat)]])"
  using assms
  by (simp add: get_points_south_then_east_def get_points_south_stop get_points_east_stop)

text \<open>
  From the origin to latitude \<open>-10\<close> and longitude \<open>60\<close> in steps of 6371 km: the row
  on the equator needs two steps of one radian to pass longitude \<open>60\<close>, the row one
  radian further south passes it with its first step.
\<close>

lemma sum_five:
  fixes f :: "nat \<Rightarrow> real"
  shows "(\<Sum>m<5. f m) = f 0 + f 1 + f 2 + f 3 + f 4"
  by (simp add: eval_nat_numeral lessThan_Suc)

lemma sin_one_ge: "4 / 5 \<le> sin (1::real)"
proof -
  have "(\<Sum>m<5. sin_coeff m * (1::real) ^ m) = 5 / 6"
    unfolding sum_five by (simp add: sin_coeff_def fact_numeral)
  moreover have "inverse (fact 5) * \<bar>1::real\<bar> ^ 5 = 1 / 120"
    by (simp add: fact_numeral)
  ultimately have "\<bar>sin 1 - 5 / 6\<bar> \<le> (1 / 120 :: real)"
    using Maclaurin_sin_bound [of 1 5] by (simp only:)
  then show ?thesis by linarith
qed

lemma sqrt3_less_tan: "sqrt 3 < tan 1 / cos (1::real)"
proof -
  have c: "0 < cos (1::real)"
    using one_less_pi_half by (intro cos_gt_zero) simp_all
  have s: "4 / 5 \<le> sin (1::real)" by (rule sin_one_ge)
  then have "(4 / 5)\<^sup>2 \<le> (sin (1::real))\<^sup>2"
    by (intro power_mono) simp_all
  moreover have "(cos (1::real))\<^sup>2 = 1 - (sin 1)\<^sup>2"
    by (rule cos_squared_eq)
  ultimately have c2: "(cos (1::real))\<^sup>2 \<le> 9 / 25"
    by (simp add: power2_eq_square)
  have "sqrt 3 < sqrt 4"
    by (intro real_sqrt_less_mono) simp
  then have "sqrt 3 < 2" by simp
  moreover have "0 \<le> (cos (1::real))\<^sup>2" by simp
  ultimately have "sqrt 3 * (cos (1::real))\<^sup>2 \<le> 2 * (9 / 25)"
    using c2 by (intro mult_mono) simp_all
  with s have "sqrt 3 * (cos (1::real))\<^sup>2 < sin 1" by simp
  then have "sqrt 3 < sin 1 / (cos (1::real))\<^sup>2"
    using c by (simp add: pos_less_divide_eq)
  also have "\<dots> = tan 1 / cos (1::real)"
    by (simp add: tan_def power2_eq_square)
  finally show ?thesis .
qed

lemma east_step_one_radian_south: "60 < degrees (arctan (tan 1 / cos 1))"
proof -
  have "arctan (tan (pi / 3)) < arctan (tan 1 / cos (1::real))"
    using sqrt3_less_tan by (simp add: arctan_less_iff tan_60)
  moreover have "- (pi / 2) < pi / 3" "pi / 3 < pi / 2"
    using pi_gt_zero by linarith+
  then have "arctan (tan (pi / 3)) = pi / 3"
    by (rule arctan_tan)
  ultimately have "pi / 3 * (180 / pi) < arctan (tan 1 / cos 1) * (180 / pi)"
    by (intro mult_strict_right_mono) simp_all
  then show ?thesis by (simp add: degrees_def)
qed

lemma walk_south_to_minus_ten:
  "get_points_south 0 0 (- 10) 6371 [] = Some (Inr [(0, 0), (0, - (180 / pi))])"
proof -
  have "10 < degrees 1"
    using pi_less_4 by (simp add: degrees_def field_simps)
  then have "get_points_south 0 0 (- 10) 6371 [] =
      Some (Inr ([] @ [(0, 0), (0, 0 - degrees (6371 / 6371))]))"
    using degrees_one_bounds by (intro walk_south_two) simp_all
  then show ?thesis by (simp add: degrees_one)
qed

lemma walk_east_equator_to_sixty:
  "get_points_east 0 0 60 6371 [] = Some (Inr [(0, 0), (180 / pi, 0), (360 / pi, 0)])"
proof -
  have atn: "arctan (tan 1) = 1"
    using one_less_pi_half by (intro arctan_tan) linarith+
  have "get_points_east 0 0 60 6371 [] = get_points_east 0 (180 / pi) 60 6371 [(0, 0)]"
    using step_east_origin by (subst get_points_east_step) simp_all
  also have "\<dots> = Some (Inr ([(0, 0)] @ [(180 / pi, 0),
      (180 / pi + degrees (arctan (tan (6371 / 6371) / cos (radians 0))),
       degrees (arcsin (sin (radians 0) * cos (6371 / 6371))))]))"
  proof (rule walk_east_two)
    show "180 / pi \<le> 60"
      using degrees_one_bounds by (simp add: degrees_one)
    have "60 < 360 / pi"
      using pi_less_4 by (simp add: field_simps)
    then show "60 < 180 / pi + degrees (arctan (tan (6371 / 6371) / cos (radians 0)))"
      by (simp add: radians_def atn degrees_one)
    show "6371 / 6371 < pi / 2"
      using one_less_pi_half by simp
  qed simp_all
  finally show ?thesis
    by (simp add: radians_def atn degrees_def)
qed

lemma walk_east_south_row_to_sixty:
  "get_points_east (- (180 / pi)) 0 60 6371 [] =
     Some (Inr [(0, - (180 / pi)),
                (degrees (arctan (tan 1 / cos 1)), degrees (arcsin (- (sin 1 * cos 1))))])"
proof -
  have r: "radians (- (180 / pi)) = - 1"
    by (simp add: radians_def)
  have "get_points_east (- (180 / pi)) 0 60 6371 [] =
      Some (Inr ([] @ [(0, - (180 / pi)),
        (0 + degrees (arctan (tan (6371 / 6371) / cos (radians (- (180 / pi))))),
         degrees (arcsin (sin (radians (- (180 / pi))) * cos (6371 / 6371))))]))"
  proof (rule walk_east_two)
    show "- 90 < - (180 / pi)" "- (180 / pi) < 90"
      using degrees_one_bounds unfolding degrees_one by linarith+
    show "6371 / 6371 < pi / 2"
      using one_less_pi_half by simp
    show "60 < 0 + degrees (arctan (tan (6371 / 6371) / cos (radians (- (180 / pi)))))"
      using east_step_one_radian_south by (simp add: r)
  qed simp_all
  then show ?thesis by (simp add: r)
qed

lemma grid_ragged:
  "get_points_south_then_east 0 0 (- 10) 60 6371 =
     Some (Inr [[(0, 0), (180 / pi, 0), (360 / pi, 0)],
                [(0, - (180 / pi)),
                 (degrees (arctan (tan 1 / cos 1)), degrees (arcsin (- (sin 1 * cos 1))))]])"
  by (simp add: get_points_south_then_east_def walk_south_to_minus_ten
      walk_east_equator_to_sixty walk_east_south_row_to_sixty)

subsection \<open>The first corner and the row lengths\<close>

text \<open>
  C7, as the code has it. Every point matrix that a grid builder returns has at least
  one row, every row has at least one point, and the first entry of row 0 is the start
  point. The rows are walked independently of each other and need not have the same
  length.
\<close>

theorem grid_starts_at_corner:
  "(get_points_south_then_east lat lon lat_end lon_end d = Some r \<longrightarrow>
      (\<exists>first rows. r = Inr (((lon, lat) # first) # rows) \<and> (\<forall>row \<in> set rows. row \<noteq> []))) \<and>
   (get_points_east_then_south lat lon lat_end lon_end d = Some r' \<longrightarrow>
      (\<exists>first rows. r' = Inr (((lon, lat) # first) # rows) \<and> (\<forall>row \<in> set rows. row \<noteq> [])))"
  using south_then_east_shape east_then_south_shape by blast

theorem grid_starts_at_corner_witness:
  "get_points_south_then_east 0 0 (- 10) 60 6371 =
     Some (Inr [[(0, 0), (180 / pi, 0), (360 / pi, 0)],
                [(0, - (180 / pi)),
                 (degrees (arctan (tan 1 / cos 1)), degrees (arcsin (- (sin 1 * cos 1))))]]) \<and>
   get_points_east_then_south 0 0 0 0 6371 =
     Some (Inr [[(0, 0), (0, - (180 / pi))], [(180 / pi, 0), (180 / pi, - (180 / pi))]])"
  using grid_starts_at_corner [of 0 0 "- 10" 60 6371
      "Inr [[(0, 0), (180 / pi, 0), (360 / pi, 0)],
            [(0, - (180 / pi)),
             (degrees (arctan (tan 1 / cos 1)), degrees (arcsin (- (sin 1 * cos 1))))]]"]
    grid_starts_at_corner [of 0 0 0 0 6371 _
      "Inr [[(0, 0), (0, - (180 / pi))], [(180 / pi, 0), (180 / pi, - (180 / pi))]]"]
    grid_ragged grid_origin_east_then_south
  by simp

theorem grid_not_rectangular_counterexample:
  "get_points_south_then_east 0 0 (- 10) 60 6371 =
     Some (Inr [[(0, 0), (180 / pi, 0), (360 / pi, 0)],
                [(0, - (180 / pi)),
                 (degrees (arctan (tan 1 / cos 1)), degrees (arcsin (- (sin 1 * cos 1))))]]) \<and>
   length [(0, 0), (180 / pi, 0), (360 / pi, 0)] \<noteq>
   length [(0, - (180 / pi)),
           (degrees (arctan (tan 1 / cos 1)), degrees (arcsin (- (sin 1 * cos 1))))]"
  using grid_ragged by simp

text \<open>
  On that matrix the assembler reads past the end of the shorter row.
\<close>

lemma get_polygons_ragged:
  "get_polygons [[a0, a1, a2], [b0, b1]] = Inl IndexError"
  by (simp add: get_polygons_def get_square_at_rc_def getitem2_def getitem_def upt_conv_Cons)

subsection \<open>The grid of a degenerate bounding box\<close>

lemma get_polygons_two_by_two:
  "get_polygons [[p00, p01], [p10, p11]] = Inr [[p00, p10, p11, p01]]"
  by (simp add: get_polygons_def get_square_at_rc_def getitem2_def getitem_def)

lemma get_polygons_single: "get_polygons [[p]] = Inr []"
  by (simp add: get_polygons_def)

lemma get_polygons_cols_extends:
  "get_polygons_cols r m cs polys = Inr out \<Longrightarrow> \<exists>more. out = polys @ more"
proof (induction cs arbitrary: polys)
  case Nil
  then show ?case by simp
next
  case (Cons c cs)
  then obtain square where "get_polygons_cols r m cs (polys @ [square]) = Inr out"
    by (auto split: sum.splits)
  from Cons.IH [OF this] show ?case by auto
qed

lemma get_polygons_rows_extends:
  "get_polygons_rows m rs polys = Inr out \<Longrightarrow> \<exists>more. out = polys @ more"
proof (induction rs arbitrary: polys)
  case Nil
  then show ?case by simp
next
  case (Cons r rs)
  then obtain cs polys' where
    cols: "get_polygons_cols r m cs polys = Inr polys'" and
    rows: "get_polygons_rows m rs polys' = Inr out"
    by (auto split: sum.splits)
  from get_polygons_cols_extends [OF cols] Cons.IH [OF rows] show ?case by auto
qed

text \<open>
  On a matrix with two rows or more whose row 0 has two points or more, the assembler
  reads the cell at row 0 and column 0: it raises there or returns that quad and
  possibly others.
\<close>

lemma get_polygons_first_cell:
  "get_polygons ((a # b # first) # row1 # rows) \<noteq> Inr []"
proof
  define m where "m = (a # b # first) # row1 # rows"
  assume "get_polygons ((a # b # first) # row1 # rows) = Inr []"
  then have none: "get_polygons_rows m [0..<length m - 1] [] = Inr []"
    by (simp only: get_polygons_def m_def)
  have "0 < length m - 1"
    by (simp add: m_def)
  then have rs: "[0..<length m - 1] = 0 # [Suc 0..<length m - 1]"
    by (rule upt_conv_Cons)
  have "0 < length (a # b # first) - 1"
    by simp
  then have cs: "[0..<length (a # b # first) - 1] = 0 # [Suc 0..<length (a # b # first) - 1]"
    by (rule upt_conv_Cons)
  have row0: "getitem m 0 = Inr (a # b # first)"
    by (simp add: getitem_def m_def)
  have "get_polygons_rows m (0 # [Suc 0..<length m - 1]) [] =
      (case get_polygons_cols 0 m (0 # [Suc 0..<length (a # b # first) - 1]) [] of
         Inl e \<Rightarrow> Inl e
       | Inr polys' \<Rightarrow> get_polygons_rows m [Suc 0..<length m - 1] polys')"
    by (simp only: get_polygons_rows.simps row0 sum.case cs)
  with none rs obtain polys' where
    cols: "get_polygons_cols 0 m (0 # [Suc 0..<length (a # b # first) - 1]) [] = Inr polys'" and
    rows: "get_polygons_rows m [Suc 0..<length m - 1] polys' = Inr []"
    by (cases "get_polygons_cols 0 m (0 # [Suc 0..<length (a # b # first) - 1]) []")
      (simp_all only: sum.case sum.distinct)
  from get_polygons_rows_extends [OF rows] have "polys' = []" by simp
  with cols obtain square where
    "get_polygons_cols 0 m [Suc 0..<length (a # b # first) - 1] ([] @ [square]) = Inr []"
    by (cases "get_square_at_rc 0 0 m") (simp_all only: get_polygons_cols.simps sum.case sum.distinct)
  from get_polygons_cols_extends [OF this] show False by simp
qed

lemma walk_south_from_boundary:
  assumes "get_points_south lat lon lat d [] = Some (Inr ps)"
  shows "\<exists>p rest. ps = (lon, lat) # p # rest"
proof -
  from get_points_south_shape [OF assms] obtain new where
    "ps = (lon, lat) # new" "snd (last ((lon, lat) # new)) < lat"
    by auto
  then show ?thesis by (cases new) auto
qed

lemma walk_east_from_boundary:
  assumes "get_points_east lat lon lon d [] = Some (Inr ps)"
  shows "\<exists>p rest. ps = (lon, lat) # p # rest"
proof -
  from get_points_east_shape [OF assms] obtain new where
    "ps = (lon, lat) # new" "lon < fst (last ((lon, lat) # new))"
    by auto
  then show ?thesis by (cases new) auto
qed

text \<open>
  C5, as the code has it. The stop tests are strict, so with the north-west corner
  equal to the south-east corner neither walk stops at the corner. Every matrix that
  \<open>get_points_south_then_east\<close> returns for such a box has at least two rows, and its
  row 0 holds the corner and at least one more point; from it \<open>get_polygons\<close> never
  yields zero quads: it yields at least one quad, or raises \<open>IndexError\<close> when a later
  row is shorter. The matrix is the single start point when the start lies strictly
  south and strictly east of the target (\<open>lat < lat_end\<close> and \<open>lon > lon_end\<close>); from that
  matrix \<open>get_polygons\<close> yields zero quads.
\<close>

theorem degenerate_box_grid:
  "(get_points_south_then_east lat lon lat lon d = Some r \<longrightarrow>
      (\<exists>p first row1 rows.
         r = Inr (((lon, lat) # p # first) # row1 # rows) \<and>
         get_polygons (((lon, lat) # p # first) # row1 # rows) \<noteq> Inr [])) \<and>
   (lat < lat_end \<and> lon_end < lon \<longrightarrow>
      get_points_south_then_east lat lon lat_end lon_end d = Some (Inr [[(lon, lat)]]) \<and>
      get_polygons [[(lon, lat)]] = Inr [])"
proof (intro conjI impI)
  assume "get_points_south_then_east lat lon lat lon d = Some r"
  from south_then_east_rows [OF this] obtain new row0 rows where
    south: "get_points_south lat lon lat d [] = Some (Inr ((lon, lat) # new))" and
    east: "get_points_east lat lon lon d [] = Some (Inr row0)" and
    r: "r = Inr (row0 # rows)" and
    rows: "list_all2 (\<lambda>a row. get_points_east (snd a) (fst a) lon d [] = Some (Inr row))
       new rows"
    by blast
  from walk_south_from_boundary [OF south] obtain a rest where "new = a # rest"
    by auto
  with rows obtain row1 rows' where rows': "rows = row1 # rows'"
    by (cases rows) simp_all
  from walk_east_from_boundary [OF east] obtain p first where
    row0: "row0 = (lon, lat) # p # first"
    by auto
  show "\<exists>p first row1 rows.
         r = Inr (((lon, lat) # p # first) # row1 # rows) \<and>
         get_polygons (((lon, lat) # p # first) # row1 # rows) \<noteq> Inr []"
  proof (intro exI conjI)
    show "r = Inr (((lon, lat) # p # first) # row1 # rows')"
      using r rows' row0 by simp
    show "get_polygons (((lon, lat) # p # first) # row1 # rows') \<noteq> Inr []"
      by (rule get_polygons_first_cell)
  qed
next
  assume "lat < lat_end \<and> lon_end < lon"
  then show "get_points_south_then_east lat lon lat_end lon_end d = Some (Inr [[(lon, lat)]])"
    by (simp add: grid_single_point)
next
  show "get_polygons [[(lon, lat)]] = Inr []"
    by (rule get_polygons_single)
qed

theorem degenerate_box_grid_witness:
  "get_points_south_then_east 21 (- 158) 21 (- 158) 5 =
   Some (Inr
   [[(- 158, 21),
     (- 158 + degrees (arctan (tan (5 / 6371) / cos (radians 21))),
      degrees (arcsin (sin (radians 21) * cos (5 / 6371))))],
    [(- 158, 21 - degrees (5 / 6371)),
     (- 158 + degrees (arctan (tan (5 / 6371) / cos (radians (21 - degrees (5 / 6371))))),
      degrees (arcsin (sin (radians (21 - degrees (5 / 6371))) * cos (5 / 6371))))]]) \<and>
   get_polygons
   [[(- 158, 21),
     (- 158 + degrees (arctan (tan (5 / 6371) / cos (radians 21))),
      degrees (arcsin (sin (radians 21) * cos (5 / 6371))))],
    [(- 158, 21 - degrees (5 / 6371)),
     (- 158 + degrees (arctan (tan (5 / 6371) / cos (radians (21 - degrees (5 / 6371))))),
      degrees (arcsin (sin (radians (21 - degrees (5 / 6371))) * cos (5 / 6371))))]] \<noteq> Inr [] \<and>
   (21::real) < 22 \<and> (- 159::real) < - 158 \<and>
   get_points_south_then_east 21 (- 158) 22 (- 159) 5 = Some (Inr [[(- 158, 21)]]) \<and>
   get_polygons [[(- 158::real, 21::real)]] = Inr []"
  using degenerate_box_grid [of 21 "- 158" 5
      "Inr
   [[(- 158, 21),
     (- 158 + degrees (arctan (tan (5 / 6371) / cos (radians 21))),
      degrees (arcsin (sin (radians 21) * cos (5 / 6371))))],
    [(- 158, 21 - degrees (5 / 6371)),
     (- 158 + degrees (arctan (tan (5 / 6371) / cos (radians (21 - degrees (5 / 6371))))),
      degrees (arcsin (sin (radians (21 - degrees (5 / 6371))) * cos (5 / 6371))))]]"
      22 "- 159"]
    grid_corner_hawaii
  by simp

theorem degenerate_box_counterexample:
  "get_points_south_then_east 21 (- 158) 21 (- 158) 5 =
   Some (Inr
   [[(- 158, 21),
     (- 158 + degrees (arctan (tan (5 / 6371) / cos (radians 21))),
      degrees (arcsin (sin (radians 21) * cos (5 / 6371))))],
    [(- 158, 21 - degrees (5 / 6371)),
     (- 158 + degrees (arctan (tan (5 / 6371) / cos (radians (21 - degrees (5 / 6371))))),
      degrees (arcsin (sin (radians (21 - degrees (5 / 6371))) * cos (5 / 6371))))]]) \<and>
   get_points_south_then_east 21 (- 158) 21 (- 158) 5 \<noteq> Some (Inr [[(- 158, 21)]]) \<and>
   get_polygons
   [[(- 158, 21),
     (- 158 + degrees (arctan (tan (5 / 6371) / cos (radians 21))),
      degrees (arcsin (sin (radians 21) * cos (5 / 6371))))],
    [(- 158, 21 - degrees (5 / 6371)),
     (- 158 + degrees (arctan (tan (5 / 6371) / cos (radians (21 - degrees (5 / 6371))))),
      degrees (arcsin (sin (radians (21 - degrees (5 / 6371))) * cos (5 / 6371))))]] =
   Inr
   [[(- 158, 21),
     (- 158, 21 - degrees (5 / 6371)),
     (- 158 + degrees (arctan (tan (5 / 6371) / cos (radians (21 - degrees (5 / 6371))))),
      degrees (arcsin (sin (radians (21 - degrees (5 / 6371))) * cos (5 / 6371)))),
     (- 158 + degrees (arctan (tan (5 / 6371) / cos (radians 21))),
      degrees (arcsin (sin (radians 21) * cos (5 / 6371))))]]"
  using grid_corner_hawaii by (simp add: get_polygons_two_by_two)

section \<open>Termination of the line walkers\<close>

subsection \<open>The walkers under the recursion limit and without it\<close>

text \<open>
  What a walker returns with a given number of free frames, the walker without the
  limit returns too.
\<close>

lemma get_points_south_frames_unlimited:
  "get_points_south_frames f lat lon lat_end d acc = Inr ps \<Longrightarrow>
   get_points_south lat lon lat_end d acc = Some (Inr ps)"
proof (induction f arbitrary: lat lon acc)
  case 0
  then show ?case by simp
next
  case (Suc f)
  show ?case
  proof (cases "lat < lat_end")
    case True
    with Suc.prems show ?thesis by (simp add: get_points_south_stop)
  next
    case False
    obtain lon' lat' where nxt: "get_next_lat_lon lat lon d SOUTH = Inr (lon', lat')"
      using get_next_lat_lon_returns by blast
    with False Suc.prems
    have "get_points_south_frames f lat' lon' lat_end d (acc @ [(lon, lat)]) = Inr ps"
      by (simp split: if_splits)
    from Suc.IH [OF this] show ?thesis
      using get_points_south_step [OF False nxt] by simp
  qed
qed

lemma get_points_east_frames_unlimited:
  "get_points_east_frames f lat lon lon_end d acc = Inr ps \<Longrightarrow>
   get_points_east lat lon lon_end d acc = Some (Inr ps)"
proof (induction f arbitrary: lat lon acc)
  case 0
  then show ?case by simp
next
  case (Suc f)
  show ?case
  proof (cases "lon_end < lon")
    case True
    with Suc.prems show ?thesis by (simp add: get_points_east_stop)
  next
    case False
    obtain lon' lat' where nxt: "get_next_lat_lon lat lon d EAST = Inr (lon', lat')"
      using get_next_lat_lon_returns by blast
    with False Suc.prems
    have "get_points_east_frames f lat' lon' lon_end d (acc @ [(lon, lat)]) = Inr ps"
      by (simp split: if_splits)
    from Suc.IH [OF this] show ?thesis
      using get_points_east_step [OF False nxt] by simp
  qed
qed

subsection \<open>Steps due East of less than half a great circle\<close>




subsection \<open>Walks that return\<close>






subsection \<open>A walk that does not return\<close>











subsection \<open>A walk with more points than frames\<close>




end
